theory Spec2Isabelle
  imports Main "HOL-Library.Sublist" "HOL-Library.Word"
begin

unbundle bit_operations_syntax

section \<open>Strings of the Go standard library, as \<^verbatim>\<open>hotenv.go\<close> uses them\<close>

text \<open>
  A Go string is a sequence of bytes; \<^typ>\<open>string\<close> is a list of 8-bit characters, so
  \<open>len(s)\<close> is \<^term>\<open>length s\<close> and \<open>s[i]\<close> is a byte. The two quote characters the
  parser compares against are \<open>'\''\<close> (0x27) and \<open>'"'\<close> (0x22).
\<close>

definition squote :: char where
  "squote = CHR 0x27"

definition dquote :: char where
  "dquote = CHR 0x22"

text \<open>\<open>strings.HasPrefix\<close>, \<open>strings.HasSuffix\<close>, \<open>strings.TrimPrefix\<close>, \<open>strings.TrimSuffix\<close>.\<close>

definition HasPrefix :: "string \<Rightarrow> string \<Rightarrow> bool" where
  "HasPrefix s p = prefix p s"

definition HasSuffix :: "string \<Rightarrow> string \<Rightarrow> bool" where
  "HasSuffix s p = suffix p s"

definition TrimPrefix :: "string \<Rightarrow> string \<Rightarrow> string" where
  "TrimPrefix s p = (if HasPrefix s p then drop (length p) s else s)"

definition TrimSuffix :: "string \<Rightarrow> string \<Rightarrow> string" where
  "TrimSuffix s p = (if HasSuffix s p then take (length s - length p) s else s)"

text \<open>
  \<open>strings.TrimSpace\<close> removes the white space of Unicode (\<open>unicode.IsSpace\<close>) from both
  ends of the UTF-8 text. A rune is read off an end of the string exactly when the bytes
  there are its UTF-8 encoding, so the white space runes are listed by their encodings:
  the six ASCII ones, U+0085, U+00A0, U+1680, U+2000 to U+200A, U+2028, U+2029, U+202F,
  U+205F and U+3000.
\<close>

definition spaceRunes :: "string list" where
  "spaceRunes =
     [[CHR 0x09], [CHR 0x0A], [CHR 0x0B], [CHR 0x0C], [CHR 0x0D], [CHR 0x20],
      [CHR 0xC2, CHR 0x85], [CHR 0xC2, CHR 0xA0],
      [CHR 0xE1, CHR 0x9A, CHR 0x80],
      [CHR 0xE2, CHR 0x80, CHR 0x80], [CHR 0xE2, CHR 0x80, CHR 0x81],
      [CHR 0xE2, CHR 0x80, CHR 0x82], [CHR 0xE2, CHR 0x80, CHR 0x83],
      [CHR 0xE2, CHR 0x80, CHR 0x84], [CHR 0xE2, CHR 0x80, CHR 0x85],
      [CHR 0xE2, CHR 0x80, CHR 0x86], [CHR 0xE2, CHR 0x80, CHR 0x87],
      [CHR 0xE2, CHR 0x80, CHR 0x88], [CHR 0xE2, CHR 0x80, CHR 0x89],
      [CHR 0xE2, CHR 0x80, CHR 0x8A],
      [CHR 0xE2, CHR 0x80, CHR 0xA8], [CHR 0xE2, CHR 0x80, CHR 0xA9],
      [CHR 0xE2, CHR 0x80, CHR 0xAF], [CHR 0xE2, CHR 0x81, CHR 0x9F],
      [CHR 0xE3, CHR 0x80, CHR 0x80]]"

definition leadingSpace :: "string \<Rightarrow> string option" where
  "leadingSpace s = find (\<lambda>e. prefix e s) spaceRunes"

definition trailingSpace :: "string \<Rightarrow> string option" where
  "trailingSpace s = find (\<lambda>e. suffix e s) spaceRunes"

lemma spaceRunes_nonempty: "e \<in> set spaceRunes \<Longrightarrow> 0 < length e"
  by (auto simp: spaceRunes_def)

lemma leadingSpace_shorter:
  "leadingSpace s = Some e \<Longrightarrow> length (drop (length e) s) < length s"
proof -
  assume a: "leadingSpace s = Some e"
  then have m: "e \<in> set spaceRunes" and p: "prefix e s"
    by (auto simp: leadingSpace_def find_Some_iff)
  from m have "0 < length e" by (rule spaceRunes_nonempty)
  moreover from p have "length e \<le> length s" by (rule prefix_length_le)
  ultimately have "length s - length e < length s" by arith
  then show ?thesis by simp
qed

lemma trailingSpace_shorter:
  "trailingSpace s = Some e \<Longrightarrow> length (take (length s - length e) s) < length s"
proof -
  assume a: "trailingSpace s = Some e"
  then have m: "e \<in> set spaceRunes" and p: "suffix e s"
    by (auto simp: trailingSpace_def find_Some_iff)
  from m have "0 < length e" by (rule spaceRunes_nonempty)
  moreover from p have "length e \<le> length s" by (rule suffix_length_le)
  ultimately have "length s - length e < length s" by arith
  then show ?thesis by simp
qed

function TrimLeftSpace :: "string \<Rightarrow> string" where
  "TrimLeftSpace s =
     (case leadingSpace s of
        None \<Rightarrow> s
      | Some e \<Rightarrow> TrimLeftSpace (drop (length e) s))"
  by pat_completeness auto
termination
  by (relation "measure length") (auto dest: leadingSpace_shorter)

function TrimRightSpace :: "string \<Rightarrow> string" where
  "TrimRightSpace s =
     (case trailingSpace s of
        None \<Rightarrow> s
      | Some e \<Rightarrow> TrimRightSpace (take (length s - length e) s))"
  by pat_completeness auto
termination
  by (relation "measure length") (auto dest: trailingSpace_shorter)

definition TrimSpace :: "string \<Rightarrow> string" where
  "TrimSpace s = TrimRightSpace (TrimLeftSpace s)"

text \<open>
  \<open>strings.SplitN(s, "=", 2)\<close>: at most two pieces, cut at the first separator byte; the
  whole string alone when the separator does not occur.
\<close>

definition SplitN2 :: "string \<Rightarrow> char \<Rightarrow> string list" where
  "SplitN2 s sep =
     (if sep \<in> set s
      then [takeWhile (\<lambda>c. c \<noteq> sep) s, tl (dropWhile (\<lambda>c. c \<noteq> sep) s)]
      else [s])"

section \<open>The parser: \<^verbatim>\<open>loadEnvFile\<close>\<close>

text \<open>
  \<open>type config struct { m map[string]string }\<close>. Reading a Go map at a key it does not
  hold gives the zero value, the empty string.
\<close>

record config =
  config_m :: "string \<rightharpoonup> string"

definition map_index :: "(string \<rightharpoonup> string) \<Rightarrow> string \<Rightarrow> string" where
  "map_index mp k = (case mp k of None \<Rightarrow> [] | Some v \<Rightarrow> v)"

datatype error = Error string

text \<open>
  What \<open>os.Open\<close> and the \<open>bufio.Scanner\<close> over the opened file deliver: either the open
  fails, or the scanner yields the raw lines one by one (line terminators removed) and then
  stops, with \<open>sc.Err()\<close> nil or an error (a read failure, a line over the scanner's limit).
\<close>

datatype envfile = OpenFails error | Opened "string list" "error option"

text \<open>The local variables of \<open>loadEnvFile\<close> that live across iterations of the scan loop.\<close>

record scan =
  out :: "string \<rightharpoonup> string"
  key :: string
  value' :: string
  inMultiline :: bool
  quote :: char

definition scan_init :: scan where
  "scan_init = \<lparr>out = Map.empty, key = [], value' = [], inMultiline = False, quote = CHR 0x00\<rparr>"

text \<open>
  One iteration of \<open>for sc.Scan() { line := sc.Text(); ... }\<close>. A \<open>continue\<close> leaves the
  variables as they are. \<open>start\<close> and \<open>end\<close> are the first and last byte of the candidate
  value, read only when it has at least two bytes.
\<close>

definition scan_line :: "scan \<Rightarrow> string \<Rightarrow> scan" where
  "scan_line s line =
     (if \<not> inMultiline s then
        (let trim = TrimSpace line in
         if trim = [] \<or> HasPrefix trim ''#'' then s
         else
           (let kv = SplitN2 trim (CHR ''='') in
            if length kv \<noteq> 2 then s
            else
              (let k = TrimSpace (kv ! 0);
                   v = TrimSpace (kv ! 1);
                   unquoted = s\<lparr>out := (out s)(k \<mapsto> v), key := [], value' := []\<rparr>
               in
                 if 2 \<le> length v then
                   (let start = v ! 0; end' = v ! (length v - 1) in
                    if (start = squote \<or> start = dquote) \<and> end' = start then
                      s\<lparr>out := (out s)(k \<mapsto> TrimSuffix (TrimPrefix v [start]) [start]),
                        key := [], value' := []\<rparr>
                    else if (start = squote \<or> start = dquote) \<and> end' \<noteq> start then
                      s\<lparr>key := k, value' := TrimPrefix v [start] @ [CHR 0x0A],
                        inMultiline := True, quote := start\<rparr>
                    else unquoted)
                 else unquoted)))
      else if HasSuffix line [quote s] then
        s\<lparr>out := (out s)(key s \<mapsto> value' s @ TrimSuffix line [quote s]),
          key := [], value' := [], inMultiline := False\<rparr>
      else
        s\<lparr>value' := value' s @ line @ [CHR 0x0A]\<rparr>)"

definition scan_lines :: "scan \<Rightarrow> string list \<Rightarrow> scan" where
  "scan_lines s ls = foldl scan_line s ls"

definition loadEnvFile :: "envfile \<Rightarrow> config \<times> error option" where
  "loadEnvFile f =
     (case f of
        OpenFails e \<Rightarrow> (\<lparr>config_m = Map.empty\<rparr>, Some e)
      | Opened ls e \<Rightarrow> (\<lparr>config_m = out (scan_lines scan_init ls)\<rparr>, e))"

section \<open>The package state and the public operations\<close>

text \<open>
  What the package passes to \<open>optLogger\<close>, in order; the sink itself (\<open>log.Printf\<close> unless
  replaced) is outside the package.
\<close>

datatype log_entry =
    InitialLoadFailed error
  | Reloaded nat
  | ReloadFailed error
  | WatcherInitFailed error
  | WatchAddFailed error
  | WatchError error

text \<open>
  The goroutine \<open>go watchAndReload(ctx, path, defaultDebounce)\<close>: not yet spawned, spawned and
  about to subscribe to the directory, inside its \<open>for { select { ... } }\<close> loop, or returned.
\<close>

datatype goroutine = NotSpawned | Subscribing | Watching | Returned

text \<open>
  The package-level variables. \<open>cfg\<close> is an \<open>atomic.Value\<close>: \<open>None\<close> until the first
  \<open>Store\<close>. \<open>initOnce\<close> and \<open>stopOnce\<close> are \<open>sync.Once\<close> values: true once their \<open>Do\<close> has
  run. \<open>cancelFunc\<close> is nil (false) until \<open>ensureStarted\<close> assigns the cancel function of the
  watcher's context, the only value it ever gets; \<open>ctxDone\<close> says that this context has been
  cancelled. \<open>watchPath\<close> and \<open>timer\<close> are the \<open>filePath\<close> argument and the pending
  \<open>time.AfterFunc\<close> timer of \<open>watchAndReload\<close>.
\<close>

record hotenv =
  cfg :: "config option"
  initOnce :: bool
  stopOnce :: bool
  cancelFunc :: bool
  defaultPath :: string
  optFallbackToProcessEnv :: bool
  logged :: "log_entry list"
  ctxDone :: bool
  watcher :: goroutine
  watchPath :: string
  timer :: bool

text \<open>
  The state at program start. \<open>optFallbackToProcessEnv\<close> is declared
  \<open>optFallbackToProcessEnv atomic.Bool // default true\<close> with no initialiser, and the package
  has no \<open>init\<close> function and no other store to it than \<open>WithFallbackToProcessEnv\<close>: it starts
  at the zero value of \<open>atomic.Bool\<close>, which is false.
\<close>

definition hotenv_init :: hotenv where
  "hotenv_init =
     \<lparr>cfg = None, initOnce = False, stopOnce = False, cancelFunc = False,
      defaultPath = ''/app/secrets/.env'', optFallbackToProcessEnv = False,
      logged = [], ctxDone = False, watcher = NotSpawned, watchPath = [], timer = False\<rparr>"

text \<open>
  What the process sees outside the package at the moment of a call: the file system (what
  opening and scanning a path gives) and the process environment.
\<close>

record world =
  files :: "string \<Rightarrow> envfile"
  environ :: "string \<rightharpoonup> string"

definition os_Getenv :: "world \<Rightarrow> string \<Rightarrow> string" where
  "os_Getenv w k = map_index (environ w) k"

definition resolve_path :: "world \<Rightarrow> hotenv \<Rightarrow> string \<Rightarrow> string" where
  "resolve_path w st path =
     (if path = [] then
        (let p = os_Getenv w ''SECRETS_FILE'' in
         if p \<noteq> [] then p else defaultPath st)
      else path)"

definition ensureStarted :: "world \<Rightarrow> string \<Rightarrow> hotenv \<Rightarrow> hotenv" where
  "ensureStarted w path0 st =
     (if initOnce st then st
      else
        (let path = resolve_path w st path0;
             st1 = (case loadEnvFile (files w path) of
                      (c, None) \<Rightarrow> st\<lparr>cfg := Some c\<rparr>
                    | (c, Some err) \<Rightarrow>
                        st\<lparr>cfg := Some \<lparr>config_m = Map.empty\<rparr>,
                          logged := logged st @ [InitialLoadFailed err]\<rparr>)
         in st1\<lparr>cancelFunc := True, watcher := Subscribing, watchPath := path,
               initOnce := True\<rparr>))"

definition fallback :: "world \<Rightarrow> string \<Rightarrow> hotenv \<Rightarrow> string" where
  "fallback w k st =
     (if optFallbackToProcessEnv st then
        (let v = os_Getenv w k in if v \<noteq> [] then v else [])
      else [])"

definition get :: "world \<Rightarrow> string \<Rightarrow> hotenv \<Rightarrow> string" where
  "get w k st =
     (case cfg st of
        Some cur \<Rightarrow>
          (let v = map_index (config_m cur) k in
           if v \<noteq> [] then v else fallback w k st)
      | None \<Rightarrow> fallback w k st)"

text \<open>\<open>func Getenv(key string, def ...string) string\<close>: the variadic \<open>def\<close> is a list.\<close>

definition Getenv :: "world \<Rightarrow> string \<Rightarrow> string list \<Rightarrow> hotenv \<Rightarrow> string \<times> hotenv" where
  "Getenv w k dflt st =
     (let st1 = ensureStarted w [] st;
          v = get w k st1
      in (if v = [] \<and> 0 < length dflt then dflt ! 0 else v, st1))"

definition Init :: "world \<Rightarrow> string \<Rightarrow> hotenv \<Rightarrow> hotenv" where
  "Init w path st = ensureStarted w path st"

definition Stop :: "hotenv \<Rightarrow> hotenv" where
  "Stop st =
     (if stopOnce st then st
      else (if cancelFunc st then st\<lparr>ctxDone := True\<rparr> else st)\<lparr>stopOnce := True\<rparr>)"

definition WithFallbackToProcessEnv :: "bool \<Rightarrow> hotenv \<Rightarrow> hotenv" where
  "WithFallbackToProcessEnv enabled st = st\<lparr>optFallbackToProcessEnv := enabled\<rparr>"

definition WithDefaultPath :: "string \<Rightarrow> hotenv \<Rightarrow> hotenv" where
  "WithDefaultPath path st = (if path \<noteq> [] then st\<lparr>defaultPath := path\<rparr> else st)"

section \<open>The watch loop: \<^verbatim>\<open>watchAndReload\<close>\<close>

text \<open>The operation bits of \<open>fsnotify.Op\<close> (a \<open>uint32\<close>) that the loop tests an event for.\<close>

definition fsnotify_Create :: "32 word" where
  "fsnotify_Create = 1"

definition fsnotify_Write :: "32 word" where
  "fsnotify_Write = 2"

definition fsnotify_Remove :: "32 word" where
  "fsnotify_Remove = 4"

definition fsnotify_Rename :: "32 word" where
  "fsnotify_Rename = 8"

definition fsnotify_Chmod :: "32 word" where
  "fsnotify_Chmod = 16"

text \<open>The function the debounce timer runs when it fires.\<close>

definition reload :: "world \<Rightarrow> hotenv \<Rightarrow> hotenv" where
  "reload w st =
     (case loadEnvFile (files w (watchPath st)) of
        (c, None) \<Rightarrow>
          st\<lparr>cfg := Some c, logged := logged st @ [Reloaded (card (dom (config_m c)))]\<rparr>
      | (c, Some err) \<Rightarrow> st\<lparr>logged := logged st @ [ReloadFailed err]\<rparr>)"

text \<open>\<open>trigger\<close> stops the pending timer, if any, and arms a new one.\<close>

definition trigger :: "hotenv \<Rightarrow> hotenv" where
  "trigger st = st\<lparr>timer := True\<rparr>"

text \<open>
  What can happen to the goroutine and its timer: the outcome of \<open>fsnotify.NewWatcher()\<close> and
  \<open>w.Add(dir)\<close>; the \<open>select\<close> taking \<open>ctx.Done()\<close>, an event (\<open>ev, ok := <-w.Events\<close>) or an
  error (\<open>err := <-w.Errors\<close>); the timer firing.
\<close>

datatype event =
    Subscribe "error option" "error option"
  | CtxDone
  | FsEvent bool "32 word"
  | FsError error
  | TimerFires

definition watch_step :: "world \<Rightarrow> event \<Rightarrow> hotenv \<Rightarrow> hotenv" where
  "watch_step w ev st =
     (case ev of
        Subscribe newErr addErr \<Rightarrow>
          (if watcher st = Subscribing then
             (case newErr of
                Some err \<Rightarrow>
                  st\<lparr>logged := logged st @ [WatcherInitFailed err], watcher := Returned\<rparr>
              | None \<Rightarrow>
                  (case addErr of
                     Some err \<Rightarrow>
                       st\<lparr>logged := logged st @ [WatchAddFailed err], watcher := Returned\<rparr>
                   | None \<Rightarrow> st\<lparr>watcher := Watching\<rparr>))
           else st)
      | CtxDone \<Rightarrow>
          (if watcher st = Watching \<and> ctxDone st then st\<lparr>watcher := Returned\<rparr> else st)
      | FsEvent ok op \<Rightarrow>
          (if watcher st = Watching then
             (if \<not> ok then st\<lparr>watcher := Returned\<rparr>
              else if op AND (fsnotify_Write OR fsnotify_Create OR fsnotify_Remove
                              OR fsnotify_Rename OR fsnotify_Chmod) \<noteq> 0
                   then trigger st
              else st)
           else st)
      | FsError err \<Rightarrow>
          (if watcher st = Watching then st\<lparr>logged := logged st @ [WatchError err]\<rparr> else st)
      | TimerFires \<Rightarrow>
          (if timer st then reload w (st\<lparr>timer := False\<rparr>) else st))"

section \<open>Executions\<close>

text \<open>
  An execution is a sequence of steps, each a call of the public interface by the host
  program or a step of the watcher, taken in the world as it is at that moment.
\<close>

datatype action =
    CallGetenv string "string list"
  | CallInit string
  | CallStop
  | CallWithFallbackToProcessEnv bool
  | CallWithDefaultPath string
  | Watcher event

definition step :: "world \<Rightarrow> action \<Rightarrow> hotenv \<Rightarrow> hotenv" where
  "step w a st =
     (case a of
        CallGetenv k dflt \<Rightarrow> snd (Getenv w k dflt st)
      | CallInit path \<Rightarrow> Init w path st
      | CallStop \<Rightarrow> Stop st
      | CallWithFallbackToProcessEnv enabled \<Rightarrow> WithFallbackToProcessEnv enabled st
      | CallWithDefaultPath path \<Rightarrow> WithDefaultPath path st
      | Watcher ev \<Rightarrow> watch_step w ev st)"

fun run :: "(world \<times> action) list \<Rightarrow> hotenv \<Rightarrow> hotenv" where
  "run [] st = st"
| "run ((w, a) # tr) st = run tr (step w a st)"

text \<open>
  The steps by which the watch loop returns otherwise than by cancellation: a failed
  subscription (\<open>fsnotify.NewWatcher\<close> or \<open>w.Add\<close> returns an error) and a receive from a
  closed \<open>w.Events\<close> channel.
\<close>

fun loop_exits :: "action \<Rightarrow> bool" where
  "loop_exits (Watcher (Subscribe (Some err) addErr)) = True"
| "loop_exits (Watcher (Subscribe None (Some err))) = True"
| "loop_exits (Watcher (FsEvent ok op)) = (\<not> ok)"
| "loop_exits a = False"

text \<open>
  A step is a successful reload when it is the debounce timer firing with a timer pending
  and the parse of the watched file succeeds. A sequence of steps, taken from a given state,
  has no successful reload when none of its steps is one in the state it is taken in.
\<close>

definition reload_succeeds :: "world \<Rightarrow> action \<Rightarrow> hotenv \<Rightarrow> bool" where
  "reload_succeeds w a st =
     (case a of
        Watcher TimerFires \<Rightarrow> timer st \<and> snd (loadEnvFile (files w (watchPath st))) = None
      | _ \<Rightarrow> False)"

fun no_successful_reload :: "(world \<times> action) list \<Rightarrow> hotenv \<Rightarrow> bool" where
  "no_successful_reload [] st = True"
| "no_successful_reload ((w, a) # tr) st =
     (\<not> reload_succeeds w a st \<and> no_successful_reload tr (step w a st))"

section \<open>Example worlds\<close>

text \<open>
  Concrete file systems and environments on which the theorems below are evaluated: a
  secrets file at the default path, the same path after an update, and a file system on
  which every open fails. The process environment defines \<open>X=Y\<close> and nothing else.
\<close>

definition example_files :: "string \<Rightarrow> envfile" where
  "example_files path =
     (if path = ''/app/secrets/.env'' then Opened [''PORT=9090'', ''KEY=''] None
      else OpenFails (Error ''open: no such file or directory''))"

definition example_world :: world where
  "example_world = \<lparr>files = example_files, environ = [''X'' \<mapsto> ''Y'']\<rparr>"

definition updated_files :: "string \<Rightarrow> envfile" where
  "updated_files path = Opened [''PORT=7070''] None"

definition updated_world :: world where
  "updated_world = \<lparr>files = updated_files, environ = [''X'' \<mapsto> ''Y'']\<rparr>"

definition unreadable_files :: "string \<Rightarrow> envfile" where
  "unreadable_files path = OpenFails (Error ''open: permission denied'')"

definition unreadable_world :: world where
  "unreadable_world =
     \<lparr>files = unreadable_files, environ = [''X'' \<mapsto> ''Y'']\<rparr>"

text \<open>
  A state reached from the initial one: the store is started on the example world, the
  watcher has subscribed, and a write event has armed the debounce timer. And a sequence of
  steps during which the file cannot be opened: calls of the public interface, further
  events, and a second reload that fails.
\<close>

definition armed_state :: hotenv where
  "armed_state =
     run [(example_world, CallInit []),
          (example_world, Watcher (Subscribe None None)),
          (example_world, Watcher (FsEvent True fsnotify_Write))] hotenv_init"

definition outage_trace :: "(world \<times> action) list" where
  "outage_trace =
     [(unreadable_world, CallStop),
      (unreadable_world, CallGetenv ''PORT'' []),
      (unreadable_world, Watcher TimerFires),
      (unreadable_world, Watcher (FsEvent True fsnotify_Create)),
      (unreadable_world, Watcher TimerFires),
      (unreadable_world, CallWithFallbackToProcessEnv True),
      (unreadable_world, Watcher (FsEvent True fsnotify_Rename))]"

section \<open>Properties of the parser\<close>

lemma scan_lines_Nil: "scan_lines s [] = s"
  by (simp add: scan_lines_def)

lemma scan_lines_Cons: "scan_lines s (l # ls) = scan_lines (scan_line s l) ls"
  by (simp add: scan_lines_def)

lemma scan_lines_append: "scan_lines s (xs @ ys) = scan_lines (scan_lines s xs) ys"
  by (simp add: scan_lines_def)

lemma in_multiline_continue:
  "inMultiline s \<Longrightarrow> \<not> HasSuffix l [quote s] \<Longrightarrow>
   scan_line s l = s\<lparr>value' := value' s @ l @ [CHR 0x0A]\<rparr>"
  by (simp add: scan_line_def)

lemma in_multiline_close:
  "inMultiline s \<Longrightarrow> HasSuffix l [quote s] \<Longrightarrow>
   scan_line s l =
     s\<lparr>out := (out s)(key s \<mapsto> value' s @ TrimSuffix l [quote s]),
       key := [], value' := [], inMultiline := False\<rparr>"
  by (simp add: scan_line_def)

lemma in_multiline_lines:
  "inMultiline s \<Longrightarrow> \<forall>l \<in> set ls. \<not> HasSuffix l [quote s] \<Longrightarrow>
   scan_lines s ls = s\<lparr>value' := value' s @ concat (map (\<lambda>l. l @ [CHR 0x0A]) ls)\<rparr>"
proof (induction ls arbitrary: s)
  case Nil
  then show ?case by (simp add: scan_lines_Nil)
next
  case (Cons l ls)
  let ?s1 = "s\<lparr>value' := value' s @ l @ [CHR 0x0A]\<rparr>"
  from Cons.prems have st: "scan_line s l = ?s1"
    by (simp add: in_multiline_continue)
  have "scan_lines ?s1 ls = ?s1\<lparr>value' := value' ?s1 @ concat (map (\<lambda>l. l @ [CHR 0x0A]) ls)\<rparr>"
    using Cons.prems by (intro Cons.IH) simp_all
  then show ?case
    by (simp add: scan_lines_Cons st)
qed

lemma HasSuffix_single: "HasSuffix l [q] \<longleftrightarrow> l \<noteq> [] \<and> last l = q"
  by (cases l rule: rev_cases) (auto simp: HasSuffix_def suffix_def)

lemma TrimPrefix_hd: "v \<noteq> [] \<Longrightarrow> TrimPrefix v [hd v] = tl v"
  by (cases v) (simp_all add: TrimPrefix_def HasPrefix_def)

lemma TrimSuffix_last: "v \<noteq> [] \<Longrightarrow> TrimSuffix v [last v] = butlast v"
  by (cases v rule: rev_cases) (simp_all add: TrimSuffix_def HasSuffix_def suffix_def)

lemma normal_step:
  assumes "\<not> inMultiline s"
    and "TrimSpace line \<noteq> []"
    and "\<not> HasPrefix (TrimSpace line) ''#''"
    and "SplitN2 (TrimSpace line) (CHR ''='') = [k0, v0]"
  shows "scan_line s line =
     (let k = TrimSpace k0; v = TrimSpace v0;
          unquoted = s\<lparr>out := (out s)(k \<mapsto> v), key := [], value' := []\<rparr>
      in if 2 \<le> length v then
           (if (hd v = squote \<or> hd v = dquote) \<and> last v = hd v then
              s\<lparr>out := (out s)(k \<mapsto> butlast (tl v)), key := [], value' := []\<rparr>
            else if (hd v = squote \<or> hd v = dquote) \<and> last v \<noteq> hd v then
              s\<lparr>key := k, value' := tl v @ [CHR 0x0A], inMultiline := True, quote := hd v\<rparr>
            else unquoted)
         else unquoted)"
proof (cases "2 \<le> length (TrimSpace v0)")
  case False
  with assms show ?thesis
    by (simp add: scan_line_def Let_def)
next
  case True
  define v where "v = TrimSpace v0"
  from True have len: "2 \<le> length v" by (simp add: v_def)
  then have ne: "v \<noteq> []" by auto
  from len have ne': "tl v \<noteq> []" by (cases v) auto
  have first: "v ! 0 = hd v" using ne by (simp add: hd_conv_nth)
  have final: "v ! (length v - Suc 0) = last v" using ne by (simp add: last_conv_nth)
  have strip: "hd v = last v \<Longrightarrow> TrimSuffix (tl v) [hd v] = butlast (tl v)"
    using TrimSuffix_last [OF ne'] ne' by (simp add: last_tl)
  from assms len show ?thesis
    unfolding v_def [symmetric]
    by (simp add: scan_line_def Let_def v_def [symmetric] first final
        TrimPrefix_hd [OF ne] strip)
qed

lemma normal_opens_out:
  "\<not> inMultiline s \<Longrightarrow> inMultiline (scan_line s l) \<Longrightarrow> out (scan_line s l) = out s"
  by (auto simp: scan_line_def Let_def split: if_splits)

lemma in_multiline_stays:
  "inMultiline s \<Longrightarrow> inMultiline (scan_line s l) \<Longrightarrow>
   out (scan_line s l) = out s \<and> key (scan_line s l) = key s"
  by (simp add: scan_line_def split: if_splits)

lemma unterminated_decomposition:
  "inMultiline (scan_lines s0 ls) \<Longrightarrow> \<not> inMultiline s0 \<Longrightarrow>
   \<exists>pre line rest.
     ls = pre @ line # rest
     \<and> \<not> inMultiline (scan_lines s0 pre)
     \<and> inMultiline (scan_line (scan_lines s0 pre) line)
     \<and> out (scan_lines s0 ls) = out (scan_lines s0 pre)
     \<and> key (scan_lines s0 ls) = key (scan_line (scan_lines s0 pre) line)"
proof (induction ls rule: rev_induct)
  case Nil
  then show ?case by (simp add: scan_lines_Nil)
next
  case (snoc x xs)
  have last_step: "scan_lines s0 (xs @ [x]) = scan_line (scan_lines s0 xs) x"
    by (simp add: scan_lines_append scan_lines_Cons scan_lines_Nil)
  show ?case
  proof (cases "inMultiline (scan_lines s0 xs)")
    case True
    with snoc obtain pre line rest where
      d: "xs = pre @ line # rest" "\<not> inMultiline (scan_lines s0 pre)"
         "inMultiline (scan_line (scan_lines s0 pre) line)"
         "out (scan_lines s0 xs) = out (scan_lines s0 pre)"
         "key (scan_lines s0 xs) = key (scan_line (scan_lines s0 pre) line)"
      by blast
    from True snoc.prems(1) have
      "out (scan_lines s0 (xs @ [x])) = out (scan_lines s0 xs)
       \<and> key (scan_lines s0 (xs @ [x])) = key (scan_lines s0 xs)"
      unfolding last_step by (intro in_multiline_stays)
    with d have "xs @ [x] = pre @ line # (rest @ [x])
       \<and> \<not> inMultiline (scan_lines s0 pre)
       \<and> inMultiline (scan_line (scan_lines s0 pre) line)
       \<and> out (scan_lines s0 (xs @ [x])) = out (scan_lines s0 pre)
       \<and> key (scan_lines s0 (xs @ [x])) = key (scan_line (scan_lines s0 pre) line)"
      by simp
    then show ?thesis by blast
  next
    case False
    from False snoc.prems(1) have "out (scan_lines s0 (xs @ [x])) = out (scan_lines s0 xs)"
      unfolding last_step by (intro normal_opens_out)
    with False snoc.prems(1) have "xs @ [x] = xs @ x # []
       \<and> \<not> inMultiline (scan_lines s0 xs)
       \<and> inMultiline (scan_line (scan_lines s0 xs) x)
       \<and> out (scan_lines s0 (xs @ [x])) = out (scan_lines s0 xs)
       \<and> key (scan_lines s0 (xs @ [x])) = key (scan_line (scan_lines s0 xs) x)"
      by (simp add: last_step)
    then show ?thesis by blast
  qed
qed

section \<open>Claims about the parser\<close>

text \<open>
  Claim C8. In the normal state, a line that is neither blank nor a comment and that holds
  an \<open>=\<close> whose candidate value (the part after the first \<open>=\<close>, trimmed) is shorter than
  two bytes, the empty string and a lone quote character included, stores that candidate
  value under the key exactly as it is: no quote is stripped and the parser stays in the
  normal state.
\<close>

theorem C8_short_value_stored_as_is:
  assumes "\<not> inMultiline s"
    and "TrimSpace line \<noteq> []"
    and "\<not> HasPrefix (TrimSpace line) ''#''"
    and "SplitN2 (TrimSpace line) (CHR ''='') = [k0, v0]"
    and "length (TrimSpace v0) < 2"
  shows "scan_line s line =
           s\<lparr>out := (out s)(TrimSpace k0 \<mapsto> TrimSpace v0), key := [], value' := []\<rparr>
         \<and> \<not> inMultiline (scan_line s line)"
  using assms by (simp add: normal_step Let_def)

theorem C8_short_value_witness:
  "\<not> inMultiline scan_init
   \<and> out (scan_line scan_init (''A = '' @ [squote])) ''A'' = Some [squote]
   \<and> \<not> inMultiline (scan_line scan_init (''A = '' @ [squote]))
   \<and> out (scan_line scan_init ''EMPTY_LINE_IGNORED='') ''EMPTY_LINE_IGNORED'' = Some []"
proof -
  have n: "\<not> inMultiline scan_init"
    by (simp add: scan_init_def)
  have a1: "TrimSpace (''A = '' @ [squote]) \<noteq> []"
    by code_simp
  have a2: "\<not> HasPrefix (TrimSpace (''A = '' @ [squote])) ''#''"
    by code_simp
  have a3: "SplitN2 (TrimSpace (''A = '' @ [squote])) (CHR ''='') = [''A '', '' '' @ [squote]]"
    by code_simp
  have a4: "length (TrimSpace ('' '' @ [squote])) < 2"
    by code_simp
  have a5: "TrimSpace ''A '' = ''A''" "TrimSpace [CHR '' '', squote] = [squote]"
    by code_simp+
  have b1: "TrimSpace ''EMPTY_LINE_IGNORED='' \<noteq> []"
    by code_simp
  have b2: "\<not> HasPrefix (TrimSpace ''EMPTY_LINE_IGNORED='') ''#''"
    by code_simp
  have b3: "SplitN2 (TrimSpace ''EMPTY_LINE_IGNORED='') (CHR ''='') = [''EMPTY_LINE_IGNORED'', []]"
    by code_simp
  have b4: "length (TrimSpace []) < 2"
    by code_simp
  have b5: "TrimSpace ''EMPTY_LINE_IGNORED'' = ''EMPTY_LINE_IGNORED''" "TrimSpace [] = []"
    by code_simp+
  show ?thesis
    using n C8_short_value_stored_as_is [OF n a1 a2 a3 a4]
      C8_short_value_stored_as_is [OF n b1 b2 b3 b4]
    by (simp add: a5 b5)
qed

text \<open>
  Claim C4. In the normal state, a line whose candidate value has at least two bytes and
  whose first and last bytes are the same quote character (\<open>'\''\<close> or \<open>'"'\<close>) stores, under
  the key, the candidate value without its first and its last byte; the bytes between them
  are stored unchanged (the candidate value is the quote, the stored value, the quote), and
  the parser stays in the normal state.
\<close>

theorem C4_quoted_single_line:
  assumes "\<not> inMultiline s"
    and "TrimSpace line \<noteq> []"
    and "\<not> HasPrefix (TrimSpace line) ''#''"
    and "SplitN2 (TrimSpace line) (CHR ''='') = [k0, v0]"
    and "2 \<le> length (TrimSpace v0)"
    and "hd (TrimSpace v0) = squote \<or> hd (TrimSpace v0) = dquote"
    and "last (TrimSpace v0) = hd (TrimSpace v0)"
  shows "scan_line s line =
           s\<lparr>out := (out s)(TrimSpace k0 \<mapsto> butlast (tl (TrimSpace v0))), key := [], value' := []\<rparr>
         \<and> \<not> inMultiline (scan_line s line)
         \<and> TrimSpace v0 = hd (TrimSpace v0) # butlast (tl (TrimSpace v0)) @ [hd (TrimSpace v0)]"
proof -
  define v where "v = TrimSpace v0"
  from assms(5) have "v \<noteq> []" "tl v \<noteq> []"
    by (cases v; auto simp: v_def [symmetric])+
  then have "v = hd v # butlast (tl v) @ [last v]"
    by (metis append_butlast_last_id hd_Cons_tl last_tl)
  with assms(7) have shape: "v = hd v # butlast (tl v) @ [hd v]"
    by (simp add: v_def)
  from assms have "scan_line s line =
      s\<lparr>out := (out s)(TrimSpace k0 \<mapsto> butlast (tl (TrimSpace v0))), key := [], value' := []\<rparr>"
    by (simp add: normal_step Let_def)
  with assms(1) shape show ?thesis
    by (simp add: v_def)
qed

text \<open>The line \<open>KEY="a b c"\<close> parses to \<open>a b c\<close>.\<close>

theorem C4_quoted_single_line_witness:
  "\<not> inMultiline scan_init
   \<and> out (scan_line scan_init [CHR ''K'', CHR ''E'', CHR ''Y'', CHR ''='', dquote,
             CHR ''a'', CHR '' '', CHR ''b'', CHR '' '', CHR ''c'', dquote]) ''KEY''
       = Some ''a b c''
   \<and> \<not> inMultiline (scan_line scan_init [CHR ''K'', CHR ''E'', CHR ''Y'', CHR ''='', dquote,
             CHR ''a'', CHR '' '', CHR ''b'', CHR '' '', CHR ''c'', dquote])"
proof -
  let ?line = "[CHR ''K'', CHR ''E'', CHR ''Y'', CHR ''='', dquote,
                CHR ''a'', CHR '' '', CHR ''b'', CHR '' '', CHR ''c'', dquote]"
  let ?v = "[dquote, CHR ''a'', CHR '' '', CHR ''b'', CHR '' '', CHR ''c'', dquote]"
  have n: "\<not> inMultiline scan_init"
    by (simp add: scan_init_def)
  have a1: "TrimSpace ?line \<noteq> []"
    by code_simp
  have a2: "\<not> HasPrefix (TrimSpace ?line) ''#''"
    by code_simp
  have a3: "SplitN2 (TrimSpace ?line) (CHR ''='') = [''KEY'', ?v]"
    by code_simp
  have a4: "2 \<le> length (TrimSpace ?v)"
    by code_simp
  have a5: "hd (TrimSpace ?v) = squote \<or> hd (TrimSpace ?v) = dquote"
    by code_simp
  have a6: "last (TrimSpace ?v) = hd (TrimSpace ?v)"
    by code_simp
  have a7: "TrimSpace ''KEY'' = ''KEY''" "butlast (tl (TrimSpace ?v)) = ''a b c''"
    by code_simp+
  show ?thesis
    using n C4_quoted_single_line [OF n a1 a2 a3 a4 a5 a6]
    by (simp add: a7)
qed

text \<open>
  Claim C3. In the normal state, a line whose candidate value has at least two bytes, begins
  with a quote character (\<open>'\''\<close> or \<open>'"'\<close>) and does not end with that same character puts
  the parser in the multi-line state: the pending key is the line's key, the recorded quote
  is the first byte, and the accumulated value is the candidate value without its first
  byte, followed by a line feed. Every following raw line that does not end with the
  recorded quote is appended whole, followed by a line feed. The first raw line that ends
  with the recorded quote is appended without its last byte, the accumulated value is
  stored under the pending key, and the parser is back in the normal state.
\<close>

theorem C3_multiline_value:
  assumes "\<not> inMultiline s"
    and "TrimSpace line \<noteq> []"
    and "\<not> HasPrefix (TrimSpace line) ''#''"
    and "SplitN2 (TrimSpace line) (CHR ''='') = [k0, v0]"
    and "2 \<le> length (TrimSpace v0)"
    and "hd (TrimSpace v0) = squote \<or> hd (TrimSpace v0) = dquote"
    and "last (TrimSpace v0) \<noteq> hd (TrimSpace v0)"
    and "\<forall>l \<in> set mid. \<not> HasSuffix l [hd (TrimSpace v0)]"
    and "HasSuffix closing [hd (TrimSpace v0)]"
  shows "scan_line s line =
           s\<lparr>key := TrimSpace k0, value' := tl (TrimSpace v0) @ [CHR 0x0A],
             inMultiline := True, quote := hd (TrimSpace v0)\<rparr>
         \<and> scan_lines s (line # mid) =
           s\<lparr>key := TrimSpace k0,
             value' := tl (TrimSpace v0) @ [CHR 0x0A] @ concat (map (\<lambda>l. l @ [CHR 0x0A]) mid),
             inMultiline := True, quote := hd (TrimSpace v0)\<rparr>
         \<and> scan_lines s (line # mid @ [closing]) =
           s\<lparr>out := (out s)(TrimSpace k0 \<mapsto>
                 tl (TrimSpace v0) @ [CHR 0x0A] @ concat (map (\<lambda>l. l @ [CHR 0x0A]) mid)
                   @ butlast closing),
             key := [], value' := [], inMultiline := False, quote := hd (TrimSpace v0)\<rparr>"
proof -
  define q where "q = hd (TrimSpace v0)"
  define s1 where "s1 = s\<lparr>key := TrimSpace k0, value' := tl (TrimSpace v0) @ [CHR 0x0A],
             inMultiline := True, quote := q\<rparr>"
  define s2 where "s2 = s1\<lparr>value' := value' s1 @ concat (map (\<lambda>l. l @ [CHR 0x0A]) mid)\<rparr>"
  from assms(1-7) have st_open: "scan_line s line = s1"
    by (simp add: normal_step Let_def s1_def q_def)
  have in1: "inMultiline s1" and q1: "quote s1 = q"
    by (simp_all add: s1_def)
  from assms(8) have "\<forall>l \<in> set mid. \<not> HasSuffix l [quote s1]"
    by (simp add: q1 q_def)
  with in1 have middle: "scan_lines s1 mid = s2"
    unfolding s2_def by (rule in_multiline_lines)
  have in2: "inMultiline s2" and q2: "quote s2 = q"
    by (simp_all add: s2_def s1_def)
  from assms(9) have suf: "HasSuffix closing [quote s2]"
    by (simp add: q2 q_def)
  then have "closing \<noteq> []" "last closing = q"
    by (simp_all add: HasSuffix_single q2)
  then have strip: "TrimSuffix closing [q] = butlast closing"
    using TrimSuffix_last [of closing] by simp
  from in2 suf have st_close: "scan_line s2 closing =
      s2\<lparr>out := (out s2)(key s2 \<mapsto> value' s2 @ TrimSuffix closing [quote s2]),
         key := [], value' := [], inMultiline := False\<rparr>"
    by (rule in_multiline_close)
  have all: "scan_lines s (line # mid @ [closing]) = scan_line s2 closing"
    by (simp add: scan_lines_Cons scan_lines_append scan_lines_Nil st_open middle)
  have first2: "scan_lines s (line # mid) = s2"
    by (simp add: scan_lines_Cons st_open middle)
  show ?thesis
    unfolding all first2 st_open st_close
    by (simp add: s2_def s1_def q_def [symmetric] strip)
qed

theorem C3_multiline_value_witness:
  "\<not> inMultiline scan_init
   \<and> \<not> HasSuffix ''line2'' [dquote]
   \<and> HasSuffix [CHR ''l'', CHR ''i'', CHR ''n'', CHR ''e'', CHR ''3'', dquote] [dquote]
   \<and> inMultiline (scan_line scan_init
         [CHR ''K'', CHR ''='', dquote, CHR ''l'', CHR ''i'', CHR ''n'', CHR ''e'', CHR ''1''])
   \<and> value' (scan_lines scan_init
         [[CHR ''K'', CHR ''='', dquote, CHR ''l'', CHR ''i'', CHR ''n'', CHR ''e'', CHR ''1''],
          ''line2'']) = ''line1'' @ [CHR 0x0A] @ ''line2'' @ [CHR 0x0A]
   \<and> out (scan_lines scan_init
         [[CHR ''K'', CHR ''='', dquote, CHR ''l'', CHR ''i'', CHR ''n'', CHR ''e'', CHR ''1''],
          ''line2'',
          [CHR ''l'', CHR ''i'', CHR ''n'', CHR ''e'', CHR ''3'', dquote]]) ''K''
       = Some (''line1'' @ [CHR 0x0A] @ ''line2'' @ [CHR 0x0A] @ ''line3'')
   \<and> \<not> inMultiline (scan_lines scan_init
         [[CHR ''K'', CHR ''='', dquote, CHR ''l'', CHR ''i'', CHR ''n'', CHR ''e'', CHR ''1''],
          ''line2'',
          [CHR ''l'', CHR ''i'', CHR ''n'', CHR ''e'', CHR ''3'', dquote]])"
proof -
  let ?line = "[CHR ''K'', CHR ''='', dquote, CHR ''l'', CHR ''i'', CHR ''n'', CHR ''e'', CHR ''1'']"
  let ?v = "[dquote, CHR ''l'', CHR ''i'', CHR ''n'', CHR ''e'', CHR ''1'']"
  let ?closing = "[CHR ''l'', CHR ''i'', CHR ''n'', CHR ''e'', CHR ''3'', dquote]"
  have n: "\<not> inMultiline scan_init"
    by (simp add: scan_init_def)
  have a1: "TrimSpace ?line \<noteq> []"
    by code_simp
  have a2: "\<not> HasPrefix (TrimSpace ?line) ''#''"
    by code_simp
  have a3: "SplitN2 (TrimSpace ?line) (CHR ''='') = [''K'', ?v]"
    by code_simp
  have a4: "2 \<le> length (TrimSpace ?v)"
    by code_simp
  have a5: "hd (TrimSpace ?v) = squote \<or> hd (TrimSpace ?v) = dquote"
    by code_simp
  have a6: "last (TrimSpace ?v) \<noteq> hd (TrimSpace ?v)"
    by code_simp
  have m: "\<not> HasSuffix ''line2'' [dquote]"
    by code_simp
  have tv: "TrimSpace ?v = ?v"
    by code_simp
  from m have a7: "\<forall>l \<in> set [''line2'']. \<not> HasSuffix l [hd (TrimSpace ?v)]"
    by (simp add: tv)
  have c: "HasSuffix ?closing [dquote]"
    by code_simp
  then have a8: "HasSuffix ?closing [hd (TrimSpace ?v)]"
    by (simp add: tv)
  have tk: "TrimSpace ''K'' = ''K''"
    by code_simp
  show ?thesis
    using n m c C3_multiline_value [OF n a1 a2 a3 a4 a5 a6 a7 a8]
    by (simp add: tv tk)
qed

text \<open>
  Claim C5. Every input that ends while the parser is in the multi-line state splits into
  the lines before the one that opened the unterminated value, that line, and the lines
  after it; \<open>loadEnvFile\<close> returns the mapping as it stood before the opening line, so the
  accumulated value is dropped and the pending key is bound only if an earlier complete
  assignment bound it. The error returned is the scanner's own: none when the scanner
  reports none.
\<close>

theorem C5_unterminated_multiline_dropped:
  assumes "inMultiline (scan_lines scan_init ls)"
  shows "\<exists>pre line rest.
           ls = pre @ line # rest
           \<and> \<not> inMultiline (scan_lines scan_init pre)
           \<and> inMultiline (scan_line (scan_lines scan_init pre) line)
           \<and> key (scan_lines scan_init ls) = key (scan_line (scan_lines scan_init pre) line)
           \<and> loadEnvFile (Opened ls e) = (\<lparr>config_m = out (scan_lines scan_init pre)\<rparr>, e)"
proof -
  have "\<not> inMultiline scan_init"
    by (simp add: scan_init_def)
  with assms obtain pre line rest where
    d: "ls = pre @ line # rest" "\<not> inMultiline (scan_lines scan_init pre)"
       "inMultiline (scan_line (scan_lines scan_init pre) line)"
       "out (scan_lines scan_init ls) = out (scan_lines scan_init pre)"
       "key (scan_lines scan_init ls) = key (scan_line (scan_lines scan_init pre) line)"
    using unterminated_decomposition [of scan_init ls] by blast
  from d(4) have "loadEnvFile (Opened ls e) = (\<lparr>config_m = out (scan_lines scan_init pre)\<rparr>, e)"
    by (simp add: loadEnvFile_def)
  with d(1,2,3,5) show ?thesis
    by blast
qed

theorem C5_unterminated_multiline_witness:
  "inMultiline (scan_lines scan_init
      [''A=1'', [CHR ''K'', CHR ''='', dquote, CHR ''a'', CHR ''b'', CHR ''c''], ''more''])
   \<and> (\<exists>pre line rest.
        [''A=1'', [CHR ''K'', CHR ''='', dquote, CHR ''a'', CHR ''b'', CHR ''c''], ''more'']
          = pre @ line # rest
        \<and> loadEnvFile (Opened
            [''A=1'', [CHR ''K'', CHR ''='', dquote, CHR ''a'', CHR ''b'', CHR ''c''], ''more'']
            None) = (\<lparr>config_m = out (scan_lines scan_init pre)\<rparr>, None))
   \<and> config_m (fst (loadEnvFile (Opened
        [''A=1'', [CHR ''K'', CHR ''='', dquote, CHR ''a'', CHR ''b'', CHR ''c''], ''more'']
        None))) ''K'' = None
   \<and> config_m (fst (loadEnvFile (Opened
        [''A=1'', [CHR ''K'', CHR ''='', dquote, CHR ''a'', CHR ''b'', CHR ''c''], ''more'']
        None))) ''A'' = Some ''1''"
proof -
  let ?ls = "[''A=1'', [CHR ''K'', CHR ''='', dquote, CHR ''a'', CHR ''b'', CHR ''c''], ''more'']"
  have h: "inMultiline (scan_lines scan_init ?ls)"
    by code_simp
  have k: "config_m (fst (loadEnvFile (Opened ?ls None))) ''K'' = None"
    by code_simp
  have a: "config_m (fst (loadEnvFile (Opened ?ls None))) ''A'' = Some ''1''"
    by code_simp
  from C5_unterminated_multiline_dropped [OF h, of None] have
    "\<exists>pre line rest. ?ls = pre @ line # rest
        \<and> loadEnvFile (Opened ?ls None) = (\<lparr>config_m = out (scan_lines scan_init pre)\<rparr>, None)"
    by blast
  with h k a show ?thesis
    by blast
qed

section \<open>Properties of the store and of the lookup\<close>

lemma ensureStarted_flag:
  "optFallbackToProcessEnv (ensureStarted w p st) = optFallbackToProcessEnv st"
  by (simp add: ensureStarted_def Let_def split: prod.splits option.splits)

lemma ensureStarted_started: "initOnce st \<Longrightarrow> ensureStarted w p st = st"
  by (simp add: ensureStarted_def)

lemma ensureStarted_initial_load:
  "\<not> initOnce st \<Longrightarrow>
   cfg (ensureStarted w p st) =
     Some (case loadEnvFile (files w (resolve_path w st p)) of
             (c, None) \<Rightarrow> c
           | (c, Some err) \<Rightarrow> \<lparr>config_m = Map.empty\<rparr>)"
  by (simp add: ensureStarted_def Let_def split: prod.splits option.splits)

lemma example_snapshot:
  "loadEnvFile (example_files ''/app/secrets/.env'')
     = (\<lparr>config_m = [''PORT'' \<mapsto> ''9090'', ''KEY'' \<mapsto> []]\<rparr>, None)"
proof -
  have "scan_line scan_init ''PORT=9090''
      = scan_init\<lparr>out := [''PORT'' \<mapsto> ''9090''], key := [], value' := []\<rparr>"
  proof -
    have n: "\<not> inMultiline scan_init" by (simp add: scan_init_def)
    have a1: "TrimSpace ''PORT=9090'' \<noteq> []" by code_simp
    have a2: "\<not> HasPrefix (TrimSpace ''PORT=9090'') ''#''" by code_simp
    have a3: "SplitN2 (TrimSpace ''PORT=9090'') (CHR ''='') = [''PORT'', ''9090'']" by code_simp
    have a4: "TrimSpace ''PORT'' = ''PORT''" "TrimSpace ''9090'' = ''9090''" by code_simp+
    have a5: "CHR ''9'' \<noteq> squote" "CHR ''9'' \<noteq> dquote" by (simp_all add: squote_def dquote_def)
    from normal_step [OF n a1 a2 a3] show ?thesis
      by (simp add: a4 a5 Let_def scan_init_def)
  qed
  moreover have "scan_line (scan_init\<lparr>out := [''PORT'' \<mapsto> ''9090''], key := [], value' := []\<rparr>) ''KEY=''
      = scan_init\<lparr>out := [''PORT'' \<mapsto> ''9090'', ''KEY'' \<mapsto> []], key := [], value' := []\<rparr>"
  proof -
    let ?s = "scan_init\<lparr>out := [''PORT'' \<mapsto> ''9090''], key := [], value' := []\<rparr>"
    have n: "\<not> inMultiline ?s" by (simp add: scan_init_def)
    have a1: "TrimSpace ''KEY='' \<noteq> []" by code_simp
    have a2: "\<not> HasPrefix (TrimSpace ''KEY='') ''#''" by code_simp
    have a3: "SplitN2 (TrimSpace ''KEY='') (CHR ''='') = [''KEY'', []]" by code_simp
    have a4: "TrimSpace ''KEY'' = ''KEY''" "TrimSpace [] = []" by code_simp+
    from normal_step [OF n a1 a2 a3] show ?thesis
      by (simp add: a4 Let_def scan_init_def)
  qed
  ultimately show ?thesis
    by (simp add: loadEnvFile_def example_files_def scan_lines_Cons scan_lines_Nil scan_init_def)
qed

lemma reload_failure:
  "loadEnvFile (files w (watchPath st)) = (c, Some err) \<Longrightarrow>
   reload w st = st\<lparr>logged := logged st @ [ReloadFailed err]\<rparr>"
  by (simp add: reload_def)

text \<open>A reload whose parse succeeds replaces the Current Reference and logs the key count.\<close>

lemma reload_success:
  "loadEnvFile (files w (watchPath st)) = (c, None) \<Longrightarrow>
   reload w st = st\<lparr>cfg := Some c, logged := logged st @ [Reloaded (card (dom (config_m c)))]\<rparr>"
  by (simp add: reload_def)

lemma get_logged: "get w k (st\<lparr>logged := l\<rparr>) = get w k st"
  by (simp add: get_def fallback_def Let_def split: option.splits)

lemma get_timer: "get w k (st\<lparr>timer := b\<rparr>) = get w k st"
  by (simp add: get_def fallback_def Let_def split: option.splits)

section \<open>Claims about the lookup\<close>

text \<open>
  Claim C1 (the code departs from it). The claim: with no configuration call made, a key
  that the file mapping lacks and that the process environment defines with a non-empty
  value is answered with the environment's value. The code: \<open>optFallbackToProcessEnv\<close>
  starts at false, so in the initial state, with a secrets file that does not mention \<open>X\<close>
  and an environment that defines \<open>X=Y\<close>, \<open>Getenv("X")\<close> returns the empty string.
\<close>

theorem C1_fallback_disabled_by_default:
  "\<not> optFallbackToProcessEnv hotenv_init
   \<and> map_index (config_m (fst (loadEnvFile (example_files ''/app/secrets/.env'')))) ''X'' = []
   \<and> os_Getenv example_world ''X'' = ''Y''
   \<and> fst (Getenv example_world ''X'' [] hotenv_init) = []"
  by (simp add: Getenv_def get_def fallback_def ensureStarted_def hotenv_init_def
      example_world_def example_snapshot Let_def map_index_def os_Getenv_def resolve_path_def)

text \<open>
  Claim C2. For every key, world, list of caller defaults and state in which the snapshot
  after the (possibly lazy) start is \<open>c\<close>, \<open>Getenv\<close> returns the snapshot's value for the
  key when that is non-empty; otherwise the environment's value when the fallback flag is
  set and that value is non-empty; otherwise the first caller default when one was given,
  the empty string when none was. A key that the snapshot maps to the empty string is
  answered as a key the snapshot lacks.
\<close>

theorem C2_three_tier_lookup:
  assumes "cfg (ensureStarted w [] st) = Some c"
  shows "fst (Getenv w k dflt st) =
           (if map_index (config_m c) k \<noteq> [] then map_index (config_m c) k
            else if optFallbackToProcessEnv st \<and> os_Getenv w k \<noteq> [] then os_Getenv w k
            else (case dflt of [] \<Rightarrow> [] | d # _ \<Rightarrow> d))
         \<and> fst (Getenv w k dflt (st\<lparr>initOnce := True, cfg := Some \<lparr>config_m = mp(k \<mapsto> [])\<rparr>\<rparr>))
           = fst (Getenv w k dflt (st\<lparr>initOnce := True, cfg := Some \<lparr>config_m = mp(k := None)\<rparr>\<rparr>))"
proof -
  have tiers: "fst (Getenv w k dflt st) =
           (if map_index (config_m c) k \<noteq> [] then map_index (config_m c) k
            else if optFallbackToProcessEnv st \<and> os_Getenv w k \<noteq> [] then os_Getenv w k
            else (case dflt of [] \<Rightarrow> [] | d # _ \<Rightarrow> d))"
    using assms
    by (cases dflt) (simp_all add: Getenv_def get_def fallback_def Let_def ensureStarted_flag)
  have same: "fst (Getenv w k dflt (st\<lparr>initOnce := True, cfg := Some \<lparr>config_m = mp(k \<mapsto> [])\<rparr>\<rparr>))
           = fst (Getenv w k dflt (st\<lparr>initOnce := True, cfg := Some \<lparr>config_m = mp(k := None)\<rparr>\<rparr>))"
    by (simp add: Getenv_def get_def fallback_def Let_def ensureStarted_started map_index_def)
  from tiers same show ?thesis ..
qed

theorem C2_three_tier_lookup_witness:
  "cfg (ensureStarted example_world [] (WithFallbackToProcessEnv True hotenv_init))
     = Some \<lparr>config_m = [''PORT'' \<mapsto> ''9090'', ''KEY'' \<mapsto> []]\<rparr>
   \<and> fst (Getenv example_world ''PORT'' [''8080''] (WithFallbackToProcessEnv True hotenv_init)) = ''9090''
   \<and> fst (Getenv example_world ''X'' [''8080''] (WithFallbackToProcessEnv True hotenv_init)) = ''Y''
   \<and> fst (Getenv example_world ''KEY'' [''8080''] (WithFallbackToProcessEnv True hotenv_init)) = ''8080''
   \<and> fst (Getenv example_world ''KEY'' [] (WithFallbackToProcessEnv True hotenv_init)) = []"
proof -
  let ?st = "WithFallbackToProcessEnv True hotenv_init"
  let ?c = "\<lparr>config_m = [''PORT'' \<mapsto> ''9090'', ''KEY'' \<mapsto> []]\<rparr>"
  have h: "cfg (ensureStarted example_world [] ?st) = Some ?c"
    by (simp add: ensureStarted_initial_load WithFallbackToProcessEnv_def hotenv_init_def
        resolve_path_def os_Getenv_def map_index_def example_world_def example_snapshot)
  have f: "optFallbackToProcessEnv ?st"
    by (simp add: WithFallbackToProcessEnv_def)
  have e: "os_Getenv example_world ''X'' = ''Y''" "os_Getenv example_world ''KEY'' = []"
    by (simp_all add: os_Getenv_def map_index_def example_world_def)
  show ?thesis
    using h C2_three_tier_lookup [OF h, of "''PORT''" "[''8080'']"]
      C2_three_tier_lookup [OF h, of "''X''" "[''8080'']"]
      C2_three_tier_lookup [OF h, of "''KEY''" "[''8080'']"]
      C2_three_tier_lookup [OF h, of "''KEY''" "[]"]
    by (simp add: f e map_index_def)
qed

section \<open>Invariants of executions\<close>

lemma run_invariant:
  assumes "P st"
    and "\<And>w a s. P s \<Longrightarrow> Q a \<Longrightarrow> P (step w a s)"
    and "\<forall>x \<in> set tr. Q (snd x)"
  shows "P (run tr st)"
  using assms(1,3)
proof (induction tr arbitrary: st)
  case Nil
  then show ?case by simp
next
  case (Cons x tr)
  obtain w a where x: "x = (w, a)" by (cases x)
  from Cons.prems have "P (step w a st)"
    by (simp add: x assms(2))
  with Cons.prems show ?case
    by (simp add: x Cons.IH)
qed

lemmas step_defs = step_def Getenv_def Init_def ensureStarted_def Stop_def
  WithFallbackToProcessEnv_def WithDefaultPath_def watch_step_def reload_def trigger_def Let_def

lemma step_keeps_snapshot:
  "initOnce s \<and> cfg s \<noteq> None \<Longrightarrow> initOnce (step w a s) \<and> cfg (step w a s) \<noteq> None"
  by (cases a) (auto simp: step_defs split: prod.splits option.splits event.splits)

lemma step_keeps_uncancelled:
  "stopOnce s \<and> \<not> ctxDone s \<Longrightarrow> stopOnce (step w a s) \<and> \<not> ctxDone (step w a s)"
  by (cases a) (auto simp: step_defs split: prod.splits option.splits event.splits)

lemma step_before_start:
  "initOnce s \<or> (\<not> cancelFunc s \<and> \<not> ctxDone s \<and> watcher s = NotSpawned) \<Longrightarrow>
   initOnce (step w a s)
     \<or> (\<not> cancelFunc (step w a s) \<and> \<not> ctxDone (step w a s) \<and> watcher (step w a s) = NotSpawned)"
  by (cases a) (auto simp: step_defs split: prod.splits option.splits event.splits)

lemma step_keeps_watching:
  "stopOnce s \<and> \<not> ctxDone s \<and> (watcher s = Subscribing \<or> watcher s = Watching) \<Longrightarrow>
   \<not> loop_exits a \<Longrightarrow>
   stopOnce (step w a s) \<and> \<not> ctxDone (step w a s)
     \<and> (watcher (step w a s) = Subscribing \<or> watcher (step w a s) = Watching)"
  by (cases a rule: loop_exits.cases)
    (auto simp: step_defs split: prod.splits option.splits event.splits)

text \<open>In the usual order, the start first and \<open>Stop\<close> after it, the context is cancelled.\<close>

lemma stop_after_start_cancels:
  "\<not> initOnce st \<Longrightarrow> \<not> stopOnce st \<Longrightarrow> ctxDone (Stop (ensureStarted w p st))"
  by (simp add: Stop_def ensureStarted_def Let_def split: prod.splits option.splits)

lemma get_depends:
  "cfg a = cfg b \<Longrightarrow> optFallbackToProcessEnv a = optFallbackToProcessEnv b \<Longrightarrow>
   get w k a = get w k b"
  by (simp add: get_def fallback_def Let_def split: option.splits)

lemma step_without_reload:
  assumes "initOnce s" and "\<not> reload_succeeds w a s"
  shows "initOnce (step w a s) \<and> cfg (step w a s) = cfg s \<and> watchPath (step w a s) = watchPath s"
proof (cases a)
  case (Watcher ev)
  show ?thesis
  proof (cases ev)
    case TimerFires
    show ?thesis
    proof (cases "timer s")
      case True
      with assms(2) obtain c err where "loadEnvFile (files w (watchPath s)) = (c, Some err)"
        by (cases "loadEnvFile (files w (watchPath s))")
          (auto simp: reload_succeeds_def Watcher TimerFires)
      with assms(1) True show ?thesis
        by (simp add: Watcher TimerFires step_def watch_step_def reload_def)
    next
      case False
      with assms(1) show ?thesis
        by (simp add: Watcher TimerFires step_def watch_step_def)
    qed
  qed (use assms(1) in \<open>auto simp: Watcher step_defs split: option.splits\<close>)
qed (use assms(1) in \<open>auto simp: step_defs\<close>)

lemma run_without_reload:
  "initOnce s \<Longrightarrow> no_successful_reload tr s \<Longrightarrow>
   initOnce (run tr s) \<and> cfg (run tr s) = cfg s \<and> watchPath (run tr s) = watchPath s"
proof (induction tr arbitrary: s)
  case Nil
  then show ?case by simp
next
  case (Cons x tr)
  obtain w a where x: "x = (w, a)" by (cases x)
  from Cons.prems have nr: "\<not> reload_succeeds w a s" and rest: "no_successful_reload tr (step w a s)"
    by (simp_all add: x)
  from Cons.prems(1) nr have one:
    "initOnce (step w a s) \<and> cfg (step w a s) = cfg s \<and> watchPath (step w a s) = watchPath s"
    by (rule step_without_reload)
  with rest have "initOnce (run tr (step w a s)) \<and> cfg (run tr (step w a s)) = cfg (step w a s)
      \<and> watchPath (run tr (step w a s)) = watchPath (step w a s)"
    by (intro Cons.IH) simp_all
  with one show ?case
    by (simp add: x)
qed

lemma armed_state_value:
  "armed_state =
     \<lparr>cfg = Some \<lparr>config_m = [''PORT'' \<mapsto> ''9090'', ''KEY'' \<mapsto> []]\<rparr>,
      initOnce = True, stopOnce = False, cancelFunc = True,
      defaultPath = ''/app/secrets/.env'', optFallbackToProcessEnv = False,
      logged = [], ctxDone = False, watcher = Watching,
      watchPath = ''/app/secrets/.env'', timer = True\<rparr>"
  by (simp add: armed_state_def step_def Init_def ensureStarted_def watch_step_def trigger_def
      hotenv_init_def resolve_path_def os_Getenv_def map_index_def example_world_def
      example_snapshot fsnotify_Write_def fsnotify_Create_def fsnotify_Remove_def
      fsnotify_Rename_def fsnotify_Chmod_def Let_def)

section \<open>Claim about the reload\<close>

text \<open>
  Claim C6. When the parse of a reload fails, the timer's function changes nothing but the
  log: the Current Reference \<open>cfg\<close> is what it was and every \<open>get\<close> answers as before. In
  a started store this lasts through every sequence of later steps that has no successful
  reload (calls of the public interface, watcher events, further failed reloads): \<open>cfg\<close>
  still holds the snapshot published before the failure, and every \<open>get\<close> answers from it,
  with the fallback flag as it then stands. The next reload whose parse succeeds stores its
  mapping.
\<close>

theorem C6_failed_reload_keeps_snapshot:
  assumes "loadEnvFile (files w (watchPath st)) = (c, Some err)"
    and "loadEnvFile (files w2 (watchPath st)) = (c2, None)"
  shows "reload w st = st\<lparr>logged := logged st @ [ReloadFailed err]\<rparr>
         \<and> cfg (watch_step w TimerFires st) = cfg st
         \<and> get w' k (watch_step w TimerFires st) = get w' k st
         \<and> cfg (reload w2 (watch_step w TimerFires st)) = Some c2
         \<and> (initOnce st \<longrightarrow>
              (\<forall>tr. no_successful_reload tr (watch_step w TimerFires st) \<longrightarrow>
                 cfg (run tr (watch_step w TimerFires st)) = cfg st
                 \<and> (\<forall>w3 k3. get w3 k3 (run tr (watch_step w TimerFires st)) =
                       get w3 k3 (st\<lparr>optFallbackToProcessEnv :=
                         optFallbackToProcessEnv (run tr (watch_step w TimerFires st))\<rparr>))
                 \<and> (timer (run tr (watch_step w TimerFires st)) \<longrightarrow>
                       cfg (step w2 (Watcher TimerFires) (run tr (watch_step w TimerFires st)))
                         = Some c2)))"
proof -
  let ?s1 = "watch_step w TimerFires st"
  from assms(1) have r: "reload w (st\<lparr>timer := False\<rparr>)
      = st\<lparr>timer := False, logged := logged st @ [ReloadFailed err]\<rparr>"
    by (simp add: reload_def)
  from assms(1) have one: "reload w st = st\<lparr>logged := logged st @ [ReloadFailed err]\<rparr>"
    by (rule reload_failure)
  have keep: "cfg ?s1 = cfg st"
    by (simp add: watch_step_def r)
  have same: "get w' k ?s1 = get w' k st"
    by (simp add: watch_step_def r get_logged get_timer)
  have path: "watchPath ?s1 = watchPath st"
    by (simp add: watch_step_def r)
  from path assms(2) have next_ok: "cfg (reload w2 ?s1) = Some c2"
    by (simp add: reload_def)
  have started: "initOnce ?s1" if "initOnce st"
    using that by (simp add: watch_step_def r)
  have later: "cfg (run tr ?s1) = cfg st
      \<and> (\<forall>w3 k3. get w3 k3 (run tr ?s1) =
            get w3 k3 (st\<lparr>optFallbackToProcessEnv := optFallbackToProcessEnv (run tr ?s1)\<rparr>))
      \<and> (timer (run tr ?s1) \<longrightarrow> cfg (step w2 (Watcher TimerFires) (run tr ?s1)) = Some c2)"
    if i: "initOnce st" and n: "no_successful_reload tr ?s1" for tr
  proof -
    from started [OF i] n have inv:
      "initOnce (run tr ?s1) \<and> cfg (run tr ?s1) = cfg ?s1 \<and> watchPath (run tr ?s1) = watchPath ?s1"
      by (rule run_without_reload)
    with keep have c: "cfg (run tr ?s1) = cfg st"
      by simp
    have g: "get w3 k3 (run tr ?s1) =
        get w3 k3 (st\<lparr>optFallbackToProcessEnv := optFallbackToProcessEnv (run tr ?s1)\<rparr>)"
      for w3 k3
      by (rule get_depends) (simp_all add: c)
    from inv path assms(2) have
      "timer (run tr ?s1) \<longrightarrow> cfg (step w2 (Watcher TimerFires) (run tr ?s1)) = Some c2"
      by (simp add: step_def watch_step_def reload_def)
    with c g show ?thesis
      by blast
  qed
  from one keep same next_ok later show ?thesis
    by blast
qed

theorem C6_failed_reload_witness:
  "initOnce armed_state \<and> timer armed_state
   \<and> loadEnvFile (files unreadable_world (watchPath armed_state))
       = (\<lparr>config_m = Map.empty\<rparr>, Some (Error ''open: permission denied''))
   \<and> cfg (watch_step unreadable_world TimerFires armed_state)
       = Some \<lparr>config_m = [''PORT'' \<mapsto> ''9090'', ''KEY'' \<mapsto> []]\<rparr>
   \<and> no_successful_reload outage_trace (watch_step unreadable_world TimerFires armed_state)
   \<and> cfg (run outage_trace (watch_step unreadable_world TimerFires armed_state))
       = Some \<lparr>config_m = [''PORT'' \<mapsto> ''9090'', ''KEY'' \<mapsto> []]\<rparr>
   \<and> get unreadable_world ''PORT''
         (run outage_trace (watch_step unreadable_world TimerFires armed_state)) = ''9090''
   \<and> timer (run outage_trace (watch_step unreadable_world TimerFires armed_state))
   \<and> get updated_world ''PORT''
         (step updated_world (Watcher TimerFires)
           (run outage_trace (watch_step unreadable_world TimerFires armed_state))) = ''7070''"
proof -
  let ?s1 = "watch_step unreadable_world TimerFires armed_state"
  let ?c2 = "fst (loadEnvFile (Opened [''PORT=7070''] None))"
  note ev = step_def Getenv_def get_def fallback_def ensureStarted_def Stop_def
    WithFallbackToProcessEnv_def watch_step_def reload_def trigger_def reload_succeeds_def
    unreadable_world_def unreadable_files_def loadEnvFile_def os_Getenv_def map_index_def
    fsnotify_Write_def fsnotify_Create_def fsnotify_Remove_def fsnotify_Rename_def
    fsnotify_Chmod_def Let_def
  have i: "initOnce armed_state"
    by (simp add: armed_state_value)
  have tm: "timer armed_state"
    by (simp add: armed_state_value)
  have p: "watchPath armed_state = ''/app/secrets/.env''"
    by (simp add: armed_state_value)
  have s: "cfg armed_state = Some \<lparr>config_m = [''PORT'' \<mapsto> ''9090'', ''KEY'' \<mapsto> []]\<rparr>"
    by (simp add: armed_state_value)
  have h1: "loadEnvFile (files unreadable_world (watchPath armed_state))
     = (\<lparr>config_m = Map.empty\<rparr>, Some (Error ''open: permission denied''))"
    by (simp add: p unreadable_world_def unreadable_files_def loadEnvFile_def)
  have h2: "loadEnvFile (files updated_world (watchPath armed_state)) = (?c2, None)"
    by (simp add: p updated_world_def updated_files_def loadEnvFile_def)
  have n: "no_successful_reload outage_trace ?s1"
    by (simp add: outage_trace_def armed_state_value ev)
  have t2: "timer (run outage_trace ?s1)"
    by (simp add: outage_trace_def armed_state_value ev)
  have v: "map_index (config_m ?c2) ''PORT'' = ''7070''"
    by code_simp
  note main = C6_failed_reload_keeps_snapshot [OF h1 h2]
  from main have c1: "cfg ?s1 = cfg armed_state"
    by blast
  from main i n have c2: "cfg (run outage_trace ?s1) = cfg armed_state"
    by blast
  from main i n t2 have c3: "cfg (step updated_world (Watcher TimerFires) (run outage_trace ?s1))
      = Some ?c2"
    by blast
  have g1: "get unreadable_world ''PORT'' (run outage_trace ?s1) = ''9090''"
    by (simp add: get_def c2 s map_index_def)
  have g2: "get updated_world ''PORT''
      (step updated_world (Watcher TimerFires) (run outage_trace ?s1)) = ''7070''"
    by (simp add: get_def c3 v)
  from i tm h1 c1 n c2 g1 t2 g2 show ?thesis
    by (simp add: s)
qed

section \<open>Claims about configuration and lifecycle\<close>




text \<open>
  Claim C9. The one-time start, from any state in which it has not yet run, stores a
  snapshot in the Current Reference \<open>cfg\<close>: the parsed mapping when the initial load
  succeeds, the empty mapping when it fails. After it, whatever steps follow (calls of the
  public interface, steps of the watcher, reloads), \<open>cfg\<close> holds a snapshot, and \<open>get\<close>
  reads its answer from that snapshot before it falls back.
\<close>

theorem C9_snapshot_always_present:
  assumes "\<not> initOnce st"
  shows "cfg (ensureStarted w p st) =
           Some (case loadEnvFile (files w (resolve_path w st p)) of
                   (c, None) \<Rightarrow> c
                 | (c, Some err) \<Rightarrow> \<lparr>config_m = Map.empty\<rparr>)
         \<and> (\<forall>tr. \<exists>c. cfg (run tr (ensureStarted w p st)) = Some c
                \<and> (\<forall>w' k. get w' k (run tr (ensureStarted w p st)) =
                      (let v = map_index (config_m c) k in
                       if v \<noteq> [] then v else fallback w' k (run tr (ensureStarted w p st)))))"
proof -
  let ?s = "ensureStarted w p st"
  from assms have first: "cfg ?s =
           Some (case loadEnvFile (files w (resolve_path w st p)) of
                   (c, None) \<Rightarrow> c
                 | (c, Some err) \<Rightarrow> \<lparr>config_m = Map.empty\<rparr>)"
    by (rule ensureStarted_initial_load)
  have "initOnce ?s"
    by (simp add: ensureStarted_def Let_def split: prod.splits option.splits)
  with first have start: "initOnce ?s \<and> cfg ?s \<noteq> None"
    by simp
  have later: "\<exists>c. cfg (run tr ?s) = Some c
                \<and> (\<forall>w' k. get w' k (run tr ?s) =
                      (let v = map_index (config_m c) k in
                       if v \<noteq> [] then v else fallback w' k (run tr ?s)))" for tr
  proof -
    have "initOnce (run tr ?s) \<and> cfg (run tr ?s) \<noteq> None"
      by (rule run_invariant [where Q = "\<lambda>a. True"]) (simp_all add: start step_keeps_snapshot)
    then obtain c where c: "cfg (run tr ?s) = Some c"
      by auto
    then have "\<forall>w' k. get w' k (run tr ?s) =
                      (let v = map_index (config_m c) k in
                       if v \<noteq> [] then v else fallback w' k (run tr ?s))"
      by (simp add: get_def)
    with c show ?thesis by blast
  qed
  from first later show ?thesis
    by blast
qed

theorem C9_snapshot_witness:
  "\<not> initOnce hotenv_init
   \<and> cfg (ensureStarted unreadable_world [] hotenv_init) = Some \<lparr>config_m = Map.empty\<rparr>
   \<and> cfg (ensureStarted example_world [] hotenv_init)
       = Some \<lparr>config_m = [''PORT'' \<mapsto> ''9090'', ''KEY'' \<mapsto> []]\<rparr>
   \<and> (\<exists>c. cfg (run [(unreadable_world, Watcher TimerFires), (example_world, CallStop),
                      (updated_world, CallGetenv ''PORT'' [])]
                  (ensureStarted example_world [] hotenv_init)) = Some c)"
proof -
  have n: "\<not> initOnce hotenv_init"
    by (simp add: hotenv_init_def)
  have p: "resolve_path unreadable_world hotenv_init [] = ''/app/secrets/.env''"
    "resolve_path example_world hotenv_init [] = ''/app/secrets/.env''"
    by (simp_all add: resolve_path_def os_Getenv_def map_index_def unreadable_world_def
        example_world_def hotenv_init_def)
  have l: "loadEnvFile (files unreadable_world ''/app/secrets/.env'')
      = (\<lparr>config_m = Map.empty\<rparr>, Some (Error ''open: permission denied''))"
    by (simp add: unreadable_world_def unreadable_files_def loadEnvFile_def)
  have l2: "loadEnvFile (files example_world ''/app/secrets/.env'')
      = (\<lparr>config_m = [''PORT'' \<mapsto> ''9090'', ''KEY'' \<mapsto> []]\<rparr>, None)"
    by (simp add: example_world_def example_snapshot)
  from C9_snapshot_always_present [OF n, of unreadable_world "[]"]
  have a: "cfg (ensureStarted unreadable_world [] hotenv_init) = Some \<lparr>config_m = Map.empty\<rparr>"
    by (simp add: p l)
  from C9_snapshot_always_present [OF n, of example_world "[]"]
  have b: "cfg (ensureStarted example_world [] hotenv_init)
       = Some \<lparr>config_m = [''PORT'' \<mapsto> ''9090'', ''KEY'' \<mapsto> []]\<rparr>"
    by (simp add: p l2)
  from C9_snapshot_always_present [OF n, of example_world "[]"]
  have c: "\<exists>c. cfg (run [(unreadable_world, Watcher TimerFires), (example_world, CallStop),
                      (updated_world, CallGetenv ''PORT'' [])]
                  (ensureStarted example_world [] hotenv_init)) = Some c"
    by blast
  from n a b c show ?thesis
    by blast
qed

text \<open>
  Claim C10. When \<open>Stop\<close> is called in an execution that has not yet started the store,
  the stop guard is consumed while \<open>cancelFunc\<close> is nil. The start that follows assigns
  \<open>cancelFunc\<close> and spawns the watcher, and from then on, whatever steps follow, the
  watcher's context is never cancelled: every later \<open>Stop\<close> changes nothing and the watch
  loop never takes its \<open>ctx.Done()\<close> branch. As long as no step makes the loop return for
  another reason (a failed subscription, a closed event channel), the watcher keeps running.
\<close>

theorem C10_stop_before_start_never_cancels:
  assumes "\<not> initOnce (run pre hotenv_init)"
  shows "stopOnce (Stop (run pre hotenv_init))
         \<and> \<not> cancelFunc (Stop (run pre hotenv_init))
         \<and> cancelFunc (ensureStarted w p (Stop (run pre hotenv_init)))
         \<and> watcher (ensureStarted w p (Stop (run pre hotenv_init))) = Subscribing
         \<and> (\<forall>tr. \<not> ctxDone (run tr (ensureStarted w p (Stop (run pre hotenv_init))))
               \<and> Stop (run tr (ensureStarted w p (Stop (run pre hotenv_init))))
                   = run tr (ensureStarted w p (Stop (run pre hotenv_init)))
               \<and> (\<forall>w'. watch_step w' CtxDone (run tr (ensureStarted w p (Stop (run pre hotenv_init))))
                   = run tr (ensureStarted w p (Stop (run pre hotenv_init)))))
         \<and> (\<forall>tr. (\<forall>x \<in> set tr. \<not> loop_exits (snd x)) \<longrightarrow>
               watcher (run tr (ensureStarted w p (Stop (run pre hotenv_init)))) = Subscribing
               \<or> watcher (run tr (ensureStarted w p (Stop (run pre hotenv_init)))) = Watching)"
proof -
  let ?s0 = "run pre hotenv_init"
  let ?s1 = "Stop ?s0"
  let ?s2 = "ensureStarted w p ?s1"
  have "initOnce ?s0 \<or> (\<not> cancelFunc ?s0 \<and> \<not> ctxDone ?s0 \<and> watcher ?s0 = NotSpawned)"
    by (rule run_invariant [where Q = "\<lambda>a. True"])
      (simp_all add: hotenv_init_def step_before_start)
  with assms have s0: "\<not> cancelFunc ?s0" "\<not> ctxDone ?s0"
    by simp_all
  from s0 assms have s1: "stopOnce ?s1" "\<not> cancelFunc ?s1" "\<not> ctxDone ?s1" "\<not> initOnce ?s1"
    by (simp_all add: Stop_def)
  from s1 have s2: "stopOnce ?s2" "\<not> ctxDone ?s2" "cancelFunc ?s2" "watcher ?s2 = Subscribing"
    by (simp_all add: ensureStarted_def Let_def split: prod.splits option.splits)
  have never: "\<not> ctxDone (run tr ?s2) \<and> Stop (run tr ?s2) = run tr ?s2
      \<and> (\<forall>w'. watch_step w' CtxDone (run tr ?s2) = run tr ?s2)" for tr
  proof -
    have "stopOnce (run tr ?s2) \<and> \<not> ctxDone (run tr ?s2)"
      by (rule run_invariant [where Q = "\<lambda>a. True"]) (simp_all add: s2 step_keeps_uncancelled)
    then show ?thesis
      by (simp add: Stop_def watch_step_def)
  qed
  have runs: "watcher (run tr ?s2) = Subscribing \<or> watcher (run tr ?s2) = Watching"
    if "\<forall>x \<in> set tr. \<not> loop_exits (snd x)" for tr
  proof -
    have "stopOnce (run tr ?s2) \<and> \<not> ctxDone (run tr ?s2)
        \<and> (watcher (run tr ?s2) = Subscribing \<or> watcher (run tr ?s2) = Watching)"
      using _ _ that
    proof (rule run_invariant [where Q = "\<lambda>a. \<not> loop_exits a"])
      show "stopOnce ?s2 \<and> \<not> ctxDone ?s2 \<and> (watcher ?s2 = Subscribing \<or> watcher ?s2 = Watching)"
        by (simp add: s2)
    next
      fix w' a and s :: hotenv
      assume "stopOnce s \<and> \<not> ctxDone s \<and> (watcher s = Subscribing \<or> watcher s = Watching)"
        and "\<not> loop_exits a"
      then show "stopOnce (step w' a s) \<and> \<not> ctxDone (step w' a s)
        \<and> (watcher (step w' a s) = Subscribing \<or> watcher (step w' a s) = Watching)"
        by (rule step_keeps_watching)
    qed
    then show ?thesis by simp
  qed
  from s1 s2 never runs show ?thesis
    by blast
qed

theorem C10_stop_before_start_witness:
  "\<not> initOnce (run [] hotenv_init)
   \<and> stopOnce (Stop (run [] hotenv_init))
   \<and> \<not> loop_exits (Watcher (Subscribe None None))
   \<and> \<not> loop_exits CallStop
   \<and> \<not> loop_exits (Watcher CtxDone)
   \<and> \<not> ctxDone (run [(example_world, Watcher (Subscribe None None)), (example_world, CallStop),
                       (example_world, Watcher CtxDone)]
                  (ensureStarted example_world [] (Stop (run [] hotenv_init))))
   \<and> watcher (run [(example_world, Watcher (Subscribe None None)), (example_world, CallStop),
                    (example_world, Watcher CtxDone)]
               (ensureStarted example_world [] (Stop (run [] hotenv_init)))) = Watching"
proof -
  let ?tr = "[(example_world, Watcher (Subscribe None None)), (example_world, CallStop),
              (example_world, Watcher CtxDone)]"
  let ?s2 = "ensureStarted example_world [] (Stop (run [] hotenv_init))"
  have n: "\<not> initOnce (run [] hotenv_init)"
    by (simp add: hotenv_init_def)
  note main = C10_stop_before_start_never_cancels [OF n, of example_world "[]"]
  from main have a: "stopOnce (Stop (run [] hotenv_init))"
    by blast
  from main have b: "\<not> ctxDone (run ?tr ?s2)"
    by blast
  have q: "\<forall>x \<in> set ?tr. \<not> loop_exits (snd x)"
    by simp
  from main have "(\<forall>x \<in> set ?tr. \<not> loop_exits (snd x)) \<longrightarrow>
      watcher (run ?tr ?s2) = Subscribing \<or> watcher (run ?tr ?s2) = Watching"
    by blast
  with q have c: "watcher (run ?tr ?s2) = Subscribing \<or> watcher (run ?tr ?s2) = Watching"
    by blast
  have "watcher (run ?tr ?s2) \<noteq> Subscribing"
    by (simp add: step_def watch_step_def Stop_def ensureStarted_def Let_def
        split: prod.splits option.splits)
  with c have d: "watcher (run ?tr ?s2) = Watching"
    by blast
  from n a b d show ?thesis
    by simp
qed

end
